theory Spec2Isabelle
  imports Main
begin

section \<open>Data model\<close>

text \<open>
  \<^verbatim>\<open>src/app/db.py\<close>:
  \<^verbatim>\<open>
  class User(SQLModel, table=True):
      id: int | None = Field(default=None, primary_key=True)
      name: str
      email: str
  \<close>
  The field \<open>id\<close> is called \<open>id_field\<close> here, since \<open>id\<close> is HOL's identity function.
\<close>

record User =
  id_field :: "int option"
  name :: string
  email :: string

text \<open>
  The content of a \<^verbatim>\<open>JSONResponse\<close> and the JSON rendering of an entity.
\<close>

datatype json = JNull | JInt int | JStr string | JObj "(string \<times> json) list"

text \<open>
  What an endpoint function of \<^verbatim>\<open>src/app/main.py\<close> can return: \<^verbatim>\<open>None\<close>, a
  \<^verbatim>\<open>User\<close>, or the \<^verbatim>\<open>JSONResponse(content=..., status_code=...)\<close> object that
  \<^verbatim>\<open>update_user\<close> hands to its lock decorator.
\<close>

datatype py_value = PyNone | PyUser User | PyJSONResponse json nat

text \<open>The exceptions a database session raises inside an endpoint.\<close>

datatype error = IntegrityError | InvalidRequestError

text \<open>
  The calls an endpoint makes to its collaborators, recorded in the order in which they
  happen. The log is the only addition to the program's own state: it lets a theorem say
  which calls an execution made, and in which order.
\<close>

datatype event =
    StoreGet int
  | StoreInsert User
  | StoreUpdate User
  | StoreRefresh "int option"
  | CacheGet string
  | CacheSet string nat
  | CacheDelete string
  | LockAcquire string
  | LockBusy string
  | LockRelease string

text \<open>
  The state the endpoints act on: the rows of the user table, the cache entries (a value
  with the absolute time at which it expires), the names of the locks that are held, the
  clock in seconds, and the log of calls.
\<close>

record state =
  db :: "User list"
  cache :: "string \<rightharpoonup> (py_value \<times> nat)"
  locks :: "string set"
  now :: nat
  trace :: "event list"

definition log_event :: "event \<Rightarrow> state \<Rightarrow> state" where
  "log_event e s = s\<lparr>trace := trace s @ [e]\<rparr>"

section \<open>Key derivation\<close>

text \<open>
  The cache key \<^verbatim>\<open>'read_user-{user_id}'\<close> and the lock name
  \<^verbatim>\<open>'update-user-{user_id}'\<close> of \<^verbatim>\<open>src/app/main.py\<close> are format templates filled
  with the integer path parameter, which Python renders in decimal with a leading
  \<^verbatim>\<open>-\<close> for a negative number.
\<close>

definition digit_char :: "nat \<Rightarrow> char" where
  "digit_char d = char_of (48 + d)"

function str_nat :: "nat \<Rightarrow> string" where
  "str_nat n = (if n < 10 then [digit_char n] else str_nat (n div 10) @ [digit_char (n mod 10)])"
  by pat_completeness auto
termination
  by (relation "measure (\<lambda>n. n)") auto

declare str_nat.simps [simp del]

definition str_int :: "int \<Rightarrow> string" where
  "str_int i = (if i < 0 then CHR ''-'' # str_nat (nat (- i)) else str_nat (nat i))"

definition read_user_key :: "int \<Rightarrow> string" where
  "read_user_key user_id = ''read_user-'' @ str_int user_id"

definition update_user_lock :: "int \<Rightarrow> string" where
  "update_user_lock user_id = ''update-user-'' @ str_int user_id"

text \<open>Reading a decimal numeral back; used only to show that the rendering is injective.\<close>

definition digit_val :: "char \<Rightarrow> nat" where
  "digit_val c = of_char c - 48"

definition nat_of_str :: "string \<Rightarrow> nat" where
  "nat_of_str cs = foldl (\<lambda>a c. 10 * a + digit_val c) 0 cs"

section \<open>The user table behind the database session\<close>

text \<open>
  Modelled from the spec: the Data Store, which the source reaches through an SQLAlchemy
  \<^verbatim>\<open>AsyncSession\<close> whose code is not part of the repository. The spec gives it as
  \<open>{get(id), insert(entity), update(entity)}\<close> over "one table holding Entities keyed by
  integer id". The table is the list of its rows; \<^verbatim>\<open>session.get(User, user_id)\<close>
  returns the row whose primary key is \<open>user_id\<close>, or \<^verbatim>\<open>None\<close>.
\<close>

definition session_get :: "int \<Rightarrow> state \<Rightarrow> User option \<times> state" where
  "session_get user_id s =
     (find (\<lambda>r. id_field r = Some user_id) (db s), log_event (StoreGet user_id) s)"

text \<open>
  Modelled from the spec: the Data Store's \<open>update(entity)\<close>; in the source,
  \<^verbatim>\<open>session.add(user)\<close> and \<^verbatim>\<open>session.commit()\<close> on an object loaded by
  \<^verbatim>\<open>session.get\<close>. The row with the object's primary key takes the object's values.
\<close>

definition session_commit_update :: "User \<Rightarrow> state \<Rightarrow> state" where
  "session_commit_update user s =
     log_event (StoreUpdate user)
       (s\<lparr>db := map (\<lambda>r. if id_field r = id_field user then user else r) (db s)\<rparr>)"

text \<open>
  Modelled from the spec: the server-assigned identifier of an inserted entity ("\<open>id\<close>
  (integer, server-assigned, unique)"): one more than the largest identifier in the
  table, and 1 in an empty table.
\<close>

definition next_id :: "User list \<Rightarrow> int" where
  "next_id rows =
     (case List.map_filter id_field rows of [] \<Rightarrow> 1 | k # ks \<Rightarrow> Max (set (k # ks)) + 1)"

text \<open>
  Modelled from the spec: the Data Store's \<open>insert(entity)\<close> with "uniqueness enforced by
  the Data Store"; in the source, \<^verbatim>\<open>session.add(user)\<close> and \<^verbatim>\<open>session.commit()\<close> on
  an object built from the request body. An object without \<open>id\<close> gets the next identifier;
  an object whose \<open>id\<close> is taken is refused and the table is left as it was.
\<close>

definition session_commit_insert :: "User \<Rightarrow> state \<Rightarrow> (error + User) \<times> state" where
  "session_commit_insert user s =
     (case id_field user of
        None \<Rightarrow>
          (let user1 = user\<lparr>id_field := Some (next_id (db s))\<rparr>
           in (Inr user1, log_event (StoreInsert user1) (s\<lparr>db := db s @ [user1]\<rparr>)))
      | Some k \<Rightarrow>
          (if find (\<lambda>r. id_field r = Some k) (db s) \<noteq> None
           then (Inl IntegrityError, log_event (StoreInsert user) s)
           else (Inr user, log_event (StoreInsert user) (s\<lparr>db := db s @ [user]\<rparr>))))"

text \<open>
  Modelled from the spec: reloading an object from its row, which the spec folds into
  the Data Store's operations; in the source, \<^verbatim>\<open>session.refresh(user)\<close>. It raises when
  the row is gone.
\<close>

definition session_refresh :: "User \<Rightarrow> state \<Rightarrow> (error + User) \<times> state" where
  "session_refresh user s =
     (case find (\<lambda>r. id_field r = id_field user) (db s) of
        None \<Rightarrow> (Inl InvalidRequestError, log_event (StoreRefresh (id_field user)) s)
      | Some r \<Rightarrow> (Inr r, log_event (StoreRefresh (id_field user)) s))"

section \<open>Cache and lock\<close>

text \<open>
  Modelled from the spec: the Key-Value Cache with TTL of section 4.1, which the source
  reaches through the \<^verbatim>\<open>py_cachify\<close> library whose code is not part of the repository.
  \<open>get(key)\<close> "returns the stored value if present and not expired"; "an entry older
  than its TTL is treated as absent".
\<close>

definition cache_get :: "string \<Rightarrow> state \<Rightarrow> py_value option \<times> state" where
  "cache_get key s =
     ((case cache s key of
         None \<Rightarrow> None
       | Some (v, expiry) \<Rightarrow> if now s \<le> expiry then Some v else None),
      log_event (CacheGet key) s)"

text \<open>
  Modelled from the spec: \<open>set(key, value, ttl)\<close> of section 4.1, "stores value with an
  absolute expiry = now + ttl; overwrites any existing entry for that key".
\<close>

definition cache_set :: "string \<Rightarrow> py_value \<Rightarrow> nat \<Rightarrow> state \<Rightarrow> state" where
  "cache_set key v ttl s =
     log_event (CacheSet key ttl) (s\<lparr>cache := (cache s)(key \<mapsto> (v, now s + ttl))\<rparr>)"

text \<open>
  Modelled from the spec: \<open>invalidate(key)\<close> of section 4.1, "removes any entry for that
  key; no-op if absent".
\<close>

definition cache_invalidate :: "string \<Rightarrow> state \<Rightarrow> state" where
  "cache_invalidate key s =
     log_event (CacheDelete key) (s\<lparr>cache := (cache s)(key := None)\<rparr>)"

text \<open>
  Modelled from the spec: \<open>try_acquire(name)\<close> of section 4.3, which "attempts to acquire
  a named lock without waiting; if another holder currently owns the name, returns busy
  immediately". The result is \<open>True\<close> when the lock was acquired.
\<close>

definition try_acquire :: "string \<Rightarrow> state \<Rightarrow> bool \<times> state" where
  "try_acquire lock_name s =
     (if lock_name \<in> locks s then (False, log_event (LockBusy lock_name) s)
      else (True, log_event (LockAcquire lock_name) (s\<lparr>locks := insert lock_name (locks s)\<rparr>)))"

text \<open>Modelled from the spec: \<open>release(token)\<close> of section 4.3, "releases a held lock".\<close>

definition release :: "string \<Rightarrow> state \<Rightarrow> state" where
  "release lock_name s =
     log_event (LockRelease lock_name) (s\<lparr>locks := locks s - {lock_name}\<rparr>)"

section \<open>The two decorators\<close>

text \<open>
  Modelled from the spec: the Read-Through Cache Wrapper of section 4.2, in the source
  the decorator \<^verbatim>\<open>cached(key, ttl=...)\<close> of \<^verbatim>\<open>py_cachify\<close>, whose code is not part of the
  repository. "\<open>cache.get(key)\<close>; if present, deserialize and return it. On absence, call
  [the wrapped function]; if [it] returns not found, return not found (and do NOT cache
  negative results). Otherwise serialize the result and \<open>cache.set(key, result, ttl)\<close>,
  then return the result." An exception of the wrapped function passes through.
\<close>

definition cached ::
  "string \<Rightarrow> nat \<Rightarrow> (state \<Rightarrow> (error + py_value) \<times> state) \<Rightarrow> state \<Rightarrow> (error + py_value) \<times> state"
where
  "cached key ttl f s =
     (case cache_get key s of
        (Some v, s1) \<Rightarrow> (Inr v, s1)
      | (None, s1) \<Rightarrow>
          (case f s1 of
             (Inl e, s2) \<Rightarrow> (Inl e, s2)
           | (Inr PyNone, s2) \<Rightarrow> (Inr PyNone, s2)
           | (Inr v, s2) \<Rightarrow> (Inr v, cache_set key v ttl s2)))"

text \<open>
  Modelled from the spec: the lock part of the Write-Guarded Update Wrapper of section
  4.4, in the source the decorator \<^verbatim>\<open>once(key, return_on_locked=...)\<close> of
  \<^verbatim>\<open>py_cachify\<close>, whose code is not part of the repository. "\<open>lock.try_acquire\<close>; if busy,
  return a distinguished result; if acquired: scoped execution [of the wrapped function],
  release lock (guaranteed on every path)", also when the wrapped function raises.
\<close>

definition once ::
  "string \<Rightarrow> py_value \<Rightarrow> (state \<Rightarrow> (error + py_value) \<times> state) \<Rightarrow> state \<Rightarrow> (error + py_value) \<times> state"
where
  "once lock_name return_on_locked f s =
     (case try_acquire lock_name s of
        (False, s1) \<Rightarrow> (Inr return_on_locked, s1)
      | (True, s1) \<Rightarrow> (case f s1 of (r, s2) \<Rightarrow> (r, release lock_name s2)))"

section \<open>The endpoints of \<^verbatim>\<open>src/app/main.py\<close>\<close>

text \<open>
  \<^verbatim>\<open>
  @app.post('/users/')
  async def create_user(user, session):
      session.add(user)
      await session.commit()
      await session.refresh(user)
      return user
  \<close>
\<close>

definition create_user :: "User \<Rightarrow> state \<Rightarrow> (error + py_value) \<times> state" where
  "create_user user s =
     (case session_commit_insert user s of
        (Inl e, s1) \<Rightarrow> (Inl e, s1)
      | (Inr user1, s1) \<Rightarrow>
          (case session_refresh user1 s1 of
             (Inl e, s2) \<Rightarrow> (Inl e, s2)
           | (Inr user2, s2) \<Rightarrow> (Inr (PyUser user2), s2)))"

text \<open>
  \<^verbatim>\<open>
  @app.get('/users/{user_id}')
  @cached('read_user-{user_id}', ttl=300)
  async def read_user(user_id, session):
      return await session.get(User, user_id)
  \<close>
  \<open>read_user_body\<close> is the function as written, \<open>read_user\<close> the decorated function that
  the route calls.
\<close>

definition read_user_body :: "int \<Rightarrow> state \<Rightarrow> (error + py_value) \<times> state" where
  "read_user_body user_id s =
     (case session_get user_id s of
        (None, s1) \<Rightarrow> (Inr PyNone, s1)
      | (Some user, s1) \<Rightarrow> (Inr (PyUser user), s1))"

definition read_user :: "int \<Rightarrow> state \<Rightarrow> (error + py_value) \<times> state" where
  "read_user user_id = cached (read_user_key user_id) 300 (read_user_body user_id)"

text \<open>
  Modelled from the spec: "invalidate the read-through cache entry for \<open>id\<close>", in the
  source \<^verbatim>\<open>read_user.reset(user_id=user_id)\<close>, an attribute that \<^verbatim>\<open>cached\<close> attaches to
  the decorated function.
\<close>

definition read_user_reset :: "int \<Rightarrow> state \<Rightarrow> state" where
  "read_user_reset user_id s = cache_invalidate (read_user_key user_id) s"

text \<open>
  \<^verbatim>\<open>
  @app.put('/users/{user_id}')
  @once('update-user-{user_id}',
        return_on_locked=JSONResponse(content={'status': 'Update in progress'}, status_code=226))
  async def update_user(user_id, new_user, session):
      user = await session.get(User, user_id)
      if not user:
          return None
      user.name = new_user.name
      user.email = new_user.email
      session.add(user)
      await session.commit()
      await session.refresh(user)
      await read_user.reset(user_id=user_id)
      return user
  \<close>
  An exception of \<^verbatim>\<open>refresh\<close> leaves the function before the cache is reset.
\<close>

definition update_user_body :: "int \<Rightarrow> User \<Rightarrow> state \<Rightarrow> (error + py_value) \<times> state" where
  "update_user_body user_id new_user s =
     (case session_get user_id s of
        (None, s1) \<Rightarrow> (Inr PyNone, s1)
      | (Some user, s1) \<Rightarrow>
          (let user1 = user\<lparr>name := name new_user, email := email new_user\<rparr>;
               s2 = session_commit_update user1 s1
           in case session_refresh user1 s2 of
                (Inl e, s3) \<Rightarrow> (Inl e, s3)
              | (Inr user2, s3) \<Rightarrow> (Inr (PyUser user2), read_user_reset user_id s3)))"

definition update_in_progress :: py_value where
  "update_in_progress = PyJSONResponse (JObj [(''status'', JStr ''Update in progress'')]) 226"

definition update_user :: "int \<Rightarrow> User \<Rightarrow> state \<Rightarrow> (error + py_value) \<times> state" where
  "update_user user_id new_user =
     once (update_user_lock user_id) update_in_progress (update_user_body user_id new_user)"

section \<open>The HTTP boundary\<close>

text \<open>
  What the web framework sends for the outcome of an endpoint function. A response
  object goes out with its own status code and content. Any other return value is
  encoded as JSON (\<^verbatim>\<open>None\<close> as \<^verbatim>\<open>null\<close>) under the status code of the route, and the
  routes of \<^verbatim>\<open>src/app/main.py\<close> (\<^verbatim>\<open>@app.post('/users/')\<close>,
  \<^verbatim>\<open>@app.get('/users/{user_id}')\<close>, \<^verbatim>\<open>@app.put('/users/{user_id}')\<close>) name none, which
  leaves the framework's 200. The source raises no HTTP exception anywhere. An exception
  that escapes the endpoint becomes a 500.
\<close>

definition user_json :: "User \<Rightarrow> json" where
  "user_json u =
     JObj [(''id'', (case id_field u of None \<Rightarrow> JNull | Some k \<Rightarrow> JInt k)),
           (''name'', JStr (name u)),
           (''email'', JStr (email u))]"

fun http_response :: "error + py_value \<Rightarrow> nat \<times> json" where
  "http_response (Inl e) = (500, JStr ''Internal Server Error'')"
| "http_response (Inr (PyJSONResponse content status_code)) = (status_code, content)"
| "http_response (Inr (PyUser u)) = (200, user_json u)"
| "http_response (Inr PyNone) = (200, JNull)"

section \<open>Runs of the service\<close>

text \<open>
  A request to one of the three routes, or time passing. A run handles requests one
  after the other, each to completion.
\<close>

datatype request = POST_users User | GET_users int | PUT_users int User | Tick nat

fun handle :: "request \<Rightarrow> state \<Rightarrow> state" where
  "handle (POST_users user) s = snd (create_user user s)"
| "handle (GET_users user_id) s = snd (read_user user_id s)"
| "handle (PUT_users user_id new_user) s = snd (update_user user_id new_user s)"
| "handle (Tick n) s = s\<lparr>now := now s + n\<rparr>"

fun run :: "request list \<Rightarrow> state \<Rightarrow> state" where
  "run [] s = s"
| "run (r # rs) s = run rs (handle r s)"

section \<open>Example states\<close>

text \<open>
  The entities and states of the example exchange: a body without \<open>id\<close>, the entity the
  service makes of it, a body for an update that carries a stray \<open>id\<close>, and a second
  entity.
\<close>

definition ann :: User where
  "ann = \<lparr>id_field = None, name = ''Ann'', email = ''a@x.com''\<rparr>"

definition ann1 :: User where
  "ann1 = \<lparr>id_field = Some 1, name = ''Ann'', email = ''a@x.com''\<rparr>"

definition ann2 :: User where
  "ann2 = \<lparr>id_field = Some 7, name = ''Ann2'', email = ''a@x.com''\<rparr>"

definition bob :: User where
  "bob = \<lparr>id_field = Some 2, name = ''Bob'', email = ''b@x.com''\<rparr>"

text \<open>An empty table, an empty cache, no lock held.\<close>

definition fresh_state :: state where
  "fresh_state = \<lparr>db = [], cache = Map.empty, locks = {}, now = 0, trace = []\<rparr>"

text \<open>One row, nothing cached, no lock held.\<close>

definition stored_state :: state where
  "stored_state = \<lparr>db = [ann1], cache = Map.empty, locks = {}, now = 0, trace = []\<rparr>"

text \<open>The row was read at time 0 and the clock stands at 10.\<close>

definition cached_state :: state where
  "cached_state =
     \<lparr>db = [ann1], cache = [''read_user-1'' \<mapsto> (PyUser ann1, 300)], locks = {}, now = 10,
      trace = []\<rparr>"

text \<open>Another update of entity 1 is in flight.\<close>

definition busy_state :: state where
  "busy_state =
     \<lparr>db = [ann1], cache = Map.empty, locks = {''update-user-1''}, now = 0, trace = []\<rparr>"

text \<open>An entity is present in a state when the table has a row with its identifier.\<close>

abbreviation present :: "int \<Rightarrow> state \<Rightarrow> bool" where
  "present k s \<equiv> find (\<lambda>r. id_field r = Some k) (db s) \<noteq> None"

section \<open>Keys are rendered injectively\<close>

text \<open>
  Two requests for the same entity use the same cache key and the same lock name, and
  requests for different entities never share one: the decimal rendering of an integer
  can be read back.
\<close>

lemma digit_char_simps:
  "digit_char 0 = CHR ''0''" "digit_char (Suc 0) = CHR ''1''" "digit_char 2 = CHR ''2''"
  "digit_char 3 = CHR ''3''" "digit_char 4 = CHR ''4''" "digit_char 5 = CHR ''5''"
  "digit_char 6 = CHR ''6''" "digit_char 7 = CHR ''7''" "digit_char 8 = CHR ''8''"
  "digit_char 9 = CHR ''9''"
  by code_simp+

lemma digit_val_char: "d < 10 \<Longrightarrow> digit_val (digit_char d) = d"
  by (simp add: digit_val_def digit_char_def)

lemma nat_of_str_nat: "nat_of_str (str_nat n) = n"
proof (induction n rule: str_nat.induct)
  case (1 n)
  show ?case
  proof (cases "n < 10")
    case True
    then show ?thesis by (simp add: str_nat.simps[of n] nat_of_str_def digit_val_char)
  next
    case False
    with 1 have "nat_of_str (str_nat (n div 10)) = n div 10" by simp
    with False show ?thesis
      by (simp add: str_nat.simps[of n] nat_of_str_def digit_val_char)
  qed
qed

lemma str_nat_inj: "str_nat m = str_nat n \<Longrightarrow> m = n"
  by (metis nat_of_str_nat)

lemma digit_char_not_minus: "d < 10 \<Longrightarrow> digit_char d \<noteq> CHR ''-''"
proof
  assume d: "d < 10" and eq: "digit_char d = CHR ''-''"
  from eq have "digit_val (digit_char d) = digit_val CHR ''-''" by simp
  with d have "d = digit_val CHR ''-''" by (simp add: digit_val_char)
  also have "digit_val CHR ''-'' = 0" by (simp add: digit_val_def)
  finally have "d = 0" .
  with eq show False by (simp add: digit_char_simps)
qed

lemma str_nat_hd: "\<exists>d cs. d < 10 \<and> str_nat n = digit_char d # cs"
proof (induction n rule: str_nat.induct)
  case (1 n)
  show ?case
  proof (cases "n < 10")
    case True
    then show ?thesis by (auto simp: str_nat.simps[of n])
  next
    case False
    with 1 obtain d cs where "d < 10" "str_nat (n div 10) = digit_char d # cs" by blast
    with False show ?thesis by (auto simp: str_nat.simps[of n])
  qed
qed

lemma str_nat_not_minus: "str_nat n \<noteq> CHR ''-'' # cs"
proof
  assume eq: "str_nat n = CHR ''-'' # cs"
  obtain d ds where d: "d < 10" and hd: "str_nat n = digit_char d # ds"
    using str_nat_hd [of n] by blast
  from eq hd have "digit_char d = CHR ''-''" by simp
  with d show False by (simp add: digit_char_not_minus)
qed

lemma str_int_inj: "str_int i = str_int j \<Longrightarrow> i = j"
proof -
  assume eq: "str_int i = str_int j"
  consider "i < 0" "j < 0" | "i < 0" "\<not> j < 0" | "\<not> i < 0" "j < 0" | "\<not> i < 0" "\<not> j < 0"
    by blast
  then show ?thesis
  proof cases
    case 1
    with eq have "nat (- i) = nat (- j)" by (simp add: str_int_def str_nat_inj)
    with 1 show ?thesis by simp
  next
    case 2
    with eq have "str_nat (nat j) = CHR ''-'' # str_nat (nat (- i))" by (simp add: str_int_def)
    then show ?thesis by (simp add: str_nat_not_minus)
  next
    case 3
    with eq have "str_nat (nat i) = CHR ''-'' # str_nat (nat (- j))" by (simp add: str_int_def)
    then show ?thesis by (simp add: str_nat_not_minus)
  next
    case 4
    with eq have "nat i = nat j" by (simp add: str_int_def str_nat_inj)
    with 4 show ?thesis by simp
  qed
qed

lemma read_user_key_inj: "read_user_key i = read_user_key j \<Longrightarrow> i = j"
  by (simp add: read_user_key_def str_int_inj)

lemma update_user_lock_inj: "update_user_lock i = update_user_lock j \<Longrightarrow> i = j"
  by (simp add: update_user_lock_def str_int_inj)

lemma read_user_key_1: "read_user_key 1 = ''read_user-1''"
  by (simp add: read_user_key_def str_int_def str_nat.simps digit_char_simps)

lemma read_user_key_2: "read_user_key 2 = ''read_user-2''"
  by (simp add: read_user_key_def str_int_def str_nat.simps digit_char_simps)

lemma update_user_lock_1: "update_user_lock 1 = ''update-user-1''"
  by (simp add: update_user_lock_def str_int_def str_nat.simps digit_char_simps)

section \<open>The table\<close>

lemma log_event_fields [simp]:
  "db (log_event e s) = db s" "cache (log_event e s) = cache s"
  "locks (log_event e s) = locks s" "now (log_event e s) = now s"
  "trace (log_event e s) = trace s @ [e]"
  by (simp_all add: log_event_def)

lemma find_id_field: "find (\<lambda>r. id_field r = k) rows = Some u \<Longrightarrow> id_field u = k"
  by (induction rows) (auto split: if_splits)

lemma find_replaced:
  "find (\<lambda>r. id_field r = k) rows = Some u \<Longrightarrow> id_field u' = k \<Longrightarrow>
   find (\<lambda>r. id_field r = k) (map (\<lambda>r. if id_field r = k then u' else r) rows) = Some u'"
  by (induction rows) (auto split: if_splits)

lemma find_append_absent:
  "find P xs = None \<Longrightarrow> find P (xs @ [x]) = (if P x then Some x else None)"
  by (induction xs) (auto split: if_splits)

lemma present_iff:
  "find (\<lambda>r. id_field r = Some k) rows \<noteq> None \<longleftrightarrow> Some k \<in> set (map id_field rows)"
  by (force simp: find_None_iff)

text \<open>An update never changes the identifier column of the table.\<close>

lemma session_commit_update_ids:
  "map id_field (db (session_commit_update user s)) = map id_field (db s)"
  by (auto simp: session_commit_update_def)

section \<open>The lock decorator\<close>

lemma once_free:
  "lock_name \<notin> locks s \<Longrightarrow>
   once lock_name r f s =
     (fst (f (log_event (LockAcquire lock_name) (s\<lparr>locks := insert lock_name (locks s)\<rparr>))),
      release lock_name
        (snd (f (log_event (LockAcquire lock_name) (s\<lparr>locks := insert lock_name (locks s)\<rparr>)))))"
  by (simp add: once_def try_acquire_def split: prod.splits)

lemma once_held:
  "lock_name \<in> locks s \<Longrightarrow> once lock_name r f s = (Inr r, log_event (LockBusy lock_name) s)"
  by (simp add: once_def try_acquire_def)

text \<open>
  Whatever the wrapped function returns or raises, a lock that was free before the call
  is free after it, as long as the function leaves the locks alone.
\<close>

lemma once_releases:
  assumes "lock_name \<notin> locks s" and "\<And>s1. locks (snd (f s1)) = locks s1"
  shows "locks (snd (once lock_name r f s)) = locks s"
  using assms by (simp add: once_free release_def)

section \<open>The body of \<^verbatim>\<open>update_user\<close>\<close>

lemma update_user_body_found:
  assumes "find (\<lambda>r. id_field r = Some user_id) (db s) = Some user"
  shows "update_user_body user_id new_user s =
     (Inr (PyUser (user\<lparr>name := name new_user, email := email new_user\<rparr>)),
      read_user_reset user_id
        (log_event (StoreRefresh (Some user_id))
          (session_commit_update (user\<lparr>name := name new_user, email := email new_user\<rparr>)
            (log_event (StoreGet user_id) s))))"
proof -
  let ?u = "user\<lparr>name := name new_user, email := email new_user\<rparr>"
  have idu: "id_field ?u = Some user_id" using find_id_field [OF assms] by simp
  have "find (\<lambda>r. id_field r = Some user_id)
          (map (\<lambda>r. if id_field r = Some user_id then ?u else r) (db s)) = Some ?u"
    using find_replaced [OF assms idu] .
  then have "session_refresh ?u (session_commit_update ?u (log_event (StoreGet user_id) s)) =
      (Inr ?u, log_event (StoreRefresh (Some user_id))
                 (session_commit_update ?u (log_event (StoreGet user_id) s)))"
    using idu by (simp add: session_refresh_def session_commit_update_def)
  then show ?thesis
    using assms by (simp add: update_user_body_def session_get_def Let_def)
qed

lemma update_user_body_absent:
  assumes "find (\<lambda>r. id_field r = Some user_id) (db s) = None"
  shows "update_user_body user_id new_user s = (Inr PyNone, log_event (StoreGet user_id) s)"
  using assms by (simp add: update_user_body_def session_get_def)

lemma update_user_body_locks: "locks (snd (update_user_body user_id new_user s)) = locks s"
proof (cases "find (\<lambda>r. id_field r = Some user_id) (db s)")
  case None
  then show ?thesis by (simp add: update_user_body_absent)
next
  case (Some user)
  then show ?thesis
    by (simp add: update_user_body_found read_user_reset_def cache_invalidate_def
        session_commit_update_def)
qed

lemma update_user_body_ids:
  "map id_field (db (snd (update_user_body user_id new_user s))) = map id_field (db s)"
proof (cases "find (\<lambda>r. id_field r = Some user_id) (db s)")
  case None
  then show ?thesis by (simp add: update_user_body_absent)
next
  case (Some user)
  then show ?thesis
    by (simp add: update_user_body_found read_user_reset_def cache_invalidate_def
        session_commit_update_ids)
qed

lemma update_user_body_cache:
  "cache (snd (update_user_body user_id new_user s)) key = Some x \<Longrightarrow> cache s key = Some x"
proof (cases "find (\<lambda>r. id_field r = Some user_id) (db s)")
  case None
  assume "cache (snd (update_user_body user_id new_user s)) key = Some x"
  with None show ?thesis by (simp add: update_user_body_absent)
next
  case (Some user)
  assume "cache (snd (update_user_body user_id new_user s)) key = Some x"
  with Some show ?thesis
    by (simp add: update_user_body_found read_user_reset_def cache_invalidate_def
        session_commit_update_def split: if_splits)
qed

lemma update_user_ids:
  "map id_field (db (snd (update_user user_id new_user s))) = map id_field (db s)"
proof (cases "update_user_lock user_id \<in> locks s")
  case True
  then show ?thesis by (simp add: update_user_def once_held)
next
  case False
  then show ?thesis
    using update_user_body_ids [of user_id new_user
        "log_event (LockAcquire (update_user_lock user_id))
           (s\<lparr>locks := insert (update_user_lock user_id) (locks s)\<rparr>)"]
    by (simp add: update_user_def once_free release_def)
qed

lemma update_user_cache:
  assumes "cache (snd (update_user user_id new_user s)) key = Some x"
  shows "cache s key = Some x"
proof (cases "update_user_lock user_id \<in> locks s")
  case True
  with assms show ?thesis by (simp add: update_user_def once_held)
next
  case False
  with assms show ?thesis
    using update_user_body_cache [of user_id new_user
        "log_event (LockAcquire (update_user_lock user_id))
           (s\<lparr>locks := insert (update_user_lock user_id) (locks s)\<rparr>)" key x]
    by (simp add: update_user_def once_free release_def)
qed

section \<open>Reading and creating\<close>

lemma read_user_miss_absent:
  assumes "cache s (read_user_key user_id) = None"
    and "find (\<lambda>r. id_field r = Some user_id) (db s) = None"
  shows "read_user user_id s =
     (Inr PyNone, s\<lparr>trace := trace s @ [CacheGet (read_user_key user_id), StoreGet user_id]\<rparr>)"
  using assms
  by (simp add: read_user_def cached_def cache_get_def read_user_body_def session_get_def
      log_event_def)

lemma read_user_miss_found:
  assumes "cache s (read_user_key user_id) = None"
    and "find (\<lambda>r. id_field r = Some user_id) (db s) = Some user"
  shows "fst (read_user user_id s) = Inr (PyUser user)"
  using assms
  by (simp add: read_user_def cached_def cache_get_def read_user_body_def session_get_def)

lemma read_user_rows: "db (snd (read_user user_id s)) = db s"
  by (auto simp: read_user_def cached_def cache_get_def read_user_body_def session_get_def
      cache_set_def split: option.splits prod.splits sum.splits py_value.splits if_splits)

lemma read_user_cache:
  assumes "cache (snd (read_user user_id s)) key = Some x"
  shows "cache s key = Some x \<or>
     (key = read_user_key user_id \<and> find (\<lambda>r. id_field r = Some user_id) (db s) \<noteq> None)"
  using assms
  by (auto simp: read_user_def cached_def cache_get_def read_user_body_def session_get_def
      cache_set_def split: option.splits prod.splits sum.splits py_value.splits if_splits)

lemma create_user_fresh:
  assumes "id_field user = Some k" and "find (\<lambda>r. id_field r = Some k) (db s) = None"
  shows "create_user user s =
     (Inr (PyUser user),
      log_event (StoreRefresh (Some k)) (log_event (StoreInsert user) (s\<lparr>db := db s @ [user]\<rparr>)))"
  using assms
  by (simp add: create_user_def session_commit_insert_def session_refresh_def find_append_absent)

lemma create_user_cache: "cache (snd (create_user user s)) = cache s"
  by (auto simp: create_user_def session_commit_insert_def session_refresh_def Let_def
      split: option.splits prod.splits sum.splits if_splits)

lemma create_user_rows: "set (db s) \<subseteq> set (db (snd (create_user user s)))"
  by (auto simp: create_user_def session_commit_insert_def session_refresh_def Let_def
      split: option.splits prod.splits sum.splits if_splits)

section \<open>Every cache entry is backed by a row\<close>

text \<open>
  No request removes a row, and only a read that found a row writes a cache entry. So
  once every entry of the cache belongs to a present entity, this stays so.
\<close>

lemma handle_cache_backed:
  assumes inv: "\<And>k x. cache s (read_user_key k) = Some x \<Longrightarrow> present k s"
    and entry: "cache (handle r s) (read_user_key k) = Some x"
  shows "present k (handle r s)"
proof (cases r)
  case (POST_users user)
  with entry have "cache s (read_user_key k) = Some x" by (simp add: create_user_cache)
  then have "present k s" by (rule inv)
  then show ?thesis
    using create_user_rows [of s user] POST_users by (auto simp: find_None_iff)
next
  case (GET_users user_id)
  with entry have "cache s (read_user_key k) = Some x \<or>
     (read_user_key k = read_user_key user_id \<and> present user_id s)"
    using read_user_cache [of user_id s "read_user_key k" x] by simp
  then have "present k s"
    using inv read_user_key_inj by blast
  then show ?thesis using GET_users by (simp add: read_user_rows)
next
  case (PUT_users user_id new_user)
  with entry have "cache s (read_user_key k) = Some x"
    using update_user_cache [of user_id new_user s "read_user_key k" x] by simp
  then have "present k s" by (rule inv)
  then show ?thesis
    using PUT_users update_user_ids [of user_id new_user s]
    by (simp only: present_iff handle.simps)
next
  case (Tick n)
  with entry have "cache s (read_user_key k) = Some x" by simp
  then have "present k s" by (rule inv)
  then show ?thesis using Tick by simp
qed

lemma run_cache_backed:
  assumes "\<And>k x. cache s (read_user_key k) = Some x \<Longrightarrow> present k s"
    and "cache (run rs s) (read_user_key k) = Some x"
  shows "present k (run rs s)"
  using assms
proof (induction rs arbitrary: s k x)
  case Nil
  then show ?case by simp
next
  case (Cons r rs)
  have "present k (run rs (handle r s))"
  proof (rule Cons.IH)
    fix k' x'
    assume "cache (handle r s) (read_user_key k') = Some x'"
    then show "present k' (handle r s)"
      using Cons.prems(1) handle_cache_backed by blast
  next
    show "cache (run rs (handle r s)) (read_user_key k) = Some x"
      using Cons.prems(2) by simp
  qed
  then show ?case by simp
qed

lemma trace_update_cache: "cache (s\<lparr>trace := t\<rparr>) = cache s"
  by simp

text \<open>The table after the example exchange: one entity created, two reads.\<close>

lemma example_run_rows:
  "db (run [POST_users ann, GET_users 2, GET_users 1] fresh_state) = [ann1]"
  by (simp add: read_user_rows create_user_def session_commit_insert_def session_refresh_def
      next_id_def List.map_filter_simps Let_def ann_def ann1_def fresh_state_def)

section \<open>Reading an entity that is not there\<close>

text \<open>
  C1. Start the service with an empty cache and let it handle any requests. Whenever the
  table then has no row for an identifier, \<open>read_user\<close> of that identifier returns
  \<^verbatim>\<open>None\<close> and changes nothing but the call log, which shows one cache lookup and one
  table lookup and no cache write. If an entity with that identifier is created next,
  reading it returns the new entity at once.
\<close>

theorem read_user_absent_not_cached:
  assumes "cache s0 = Map.empty"
    and "s = run reqs s0"
    and "find (\<lambda>r. id_field r = Some user_id) (db s) = None"
  shows "read_user user_id s =
           (Inr PyNone, s\<lparr>trace := trace s @ [CacheGet (read_user_key user_id), StoreGet user_id]\<rparr>)
       \<and> (\<forall>user. id_field user = Some user_id \<longrightarrow>
            fst (create_user user (snd (read_user user_id s))) = Inr (PyUser user) \<and>
            fst (read_user user_id (snd (create_user user (snd (read_user user_id s)))))
              = Inr (PyUser user))"
proof -
  have miss: "cache s (read_user_key user_id) = None"
  proof (cases "cache s (read_user_key user_id)")
    case None
    then show ?thesis .
  next
    case (Some x)
    have "present user_id (run reqs s0)"
    proof (rule run_cache_backed)
      fix k y
      assume "cache s0 (read_user_key k) = Some y"
      with assms(1) show "present k s0" by simp
    next
      show "cache (run reqs s0) (read_user_key user_id) = Some x"
        using Some assms(2) by simp
    qed
    with assms(2,3) show ?thesis by simp
  qed
  have first: "read_user user_id s =
      (Inr PyNone, s\<lparr>trace := trace s @ [CacheGet (read_user_key user_id), StoreGet user_id]\<rparr>)"
    using miss assms(3) by (rule read_user_miss_absent)
  have later: "fst (create_user user (snd (read_user user_id s))) = Inr (PyUser user) \<and>
      fst (read_user user_id (snd (create_user user (snd (read_user user_id s)))))
        = Inr (PyUser user)"
    if u: "id_field user = Some user_id" for user
  proof -
    let ?s1 = "snd (read_user user_id s)"
    have s1: "db ?s1 = db s" "cache ?s1 = cache s" by (simp_all add: first)
    have absent1: "find (\<lambda>r. id_field r = Some user_id) (db ?s1) = None"
      using assms(3) s1 by simp
    have created: "create_user user ?s1 =
        (Inr (PyUser user),
         log_event (StoreRefresh (Some user_id))
           (log_event (StoreInsert user) (?s1\<lparr>db := db ?s1 @ [user]\<rparr>)))"
      using u absent1 by (rule create_user_fresh)
    let ?s2 = "snd (create_user user ?s1)"
    have c2: "cache ?s2 (read_user_key user_id) = None"
      using miss s1 by (simp add: created)
    have d2: "find (\<lambda>r. id_field r = Some user_id) (db ?s2) = Some user"
      using u absent1 by (simp add: created find_append_absent)
    have "fst (read_user user_id ?s2) = Inr (PyUser user)"
      using c2 d2 by (rule read_user_miss_found)
    then show ?thesis by (simp add: created)
  qed
  from first later show ?thesis by blast
qed

theorem read_user_absent_not_cached_witness:
  "fst (read_user 2 (run [POST_users ann, GET_users 2, GET_users 1] fresh_state)) = Inr PyNone
   \<and> cache (snd (read_user 2 (run [POST_users ann, GET_users 2, GET_users 1] fresh_state)))
       ''read_user-2'' = None
   \<and> fst (read_user 2 (snd (create_user bob
        (snd (read_user 2 (run [POST_users ann, GET_users 2, GET_users 1] fresh_state))))))
       = Inr (PyUser bob)"
proof -
  let ?s = "run [POST_users ann, GET_users 2, GET_users 1] fresh_state"
  have h1: "cache fresh_state = Map.empty" by (simp add: fresh_state_def)
  have h3: "find (\<lambda>r. id_field r = Some 2) (db ?s) = None"
    unfolding example_run_rows by (simp add: ann1_def)
  have b: "id_field bob = Some 2" by (simp add: bob_def)
  note inst = read_user_absent_not_cached [OF h1 refl h3]
  have miss: "cache ?s ''read_user-2'' = None"
    using run_cache_backed [of fresh_state "[POST_users ann, GET_users 2, GET_users 1]" 2] h1 h3
    by (cases "cache ?s ''read_user-2''") (auto simp: read_user_key_2)
  from inst have r: "read_user 2 ?s =
      (Inr PyNone, ?s\<lparr>trace := trace ?s @ [CacheGet (read_user_key 2), StoreGet 2]\<rparr>)"
    by (rule conjunct1)
  from r have r1: "fst (read_user 2 ?s) = Inr PyNone"
    by (simp only: fst_conv)
  from r have "cache (snd (read_user 2 ?s)) = cache ?s"
    by (simp only: snd_conv trace_update_cache)
  with miss have r2: "cache (snd (read_user 2 ?s)) ''read_user-2'' = None"
    by (simp only:)
  from inst b have r3: "fst (read_user 2 (snd (create_user bob (snd (read_user 2 ?s)))))
      = Inr (PyUser bob)"
    by blast
  from r1 r2 r3 show ?thesis by (intro conjI)
qed

section \<open>Reading an entity that is cached\<close>

text \<open>
  C4. When the cache holds an entry for the key of an identifier and the entry has not
  expired, \<open>read_user\<close> returns the cached value, and the state afterwards is the state
  before with one cache lookup added to the call log: no call to the table was made.
\<close>

theorem read_user_hit:
  assumes "cache s (read_user_key user_id) = Some (v, expiry)" and "now s \<le> expiry"
  shows "read_user user_id s = (Inr v, s\<lparr>trace := trace s @ [CacheGet (read_user_key user_id)]\<rparr>)"
  using assms by (simp add: read_user_def cached_def cache_get_def log_event_def)


text \<open>The entity cached at time 0 is served from the cache at time 10.\<close>

theorem read_user_hit_witness:
  "read_user 1 cached_state =
     (Inr (PyUser ann1), cached_state\<lparr>trace := [CacheGet ''read_user-1'']\<rparr>)"
proof -
  have entry: "cache cached_state (read_user_key 1) = Some (PyUser ann1, 300)"
    by (simp add: cached_state_def read_user_key_1)
  have live: "now cached_state \<le> 300" by (simp add: cached_state_def)
  from read_user_hit [OF entry live] show ?thesis
    by (simp add: cached_state_def read_user_key_1)
qed


section \<open>Reading an entity that is stored but not cached\<close>

text \<open>
  C10. When the cache lookup finds nothing and the table has the row, \<open>read_user\<close>
  stores the row under the key of the identifier with an expiry 300 seconds after the
  current time, and the call log shows the write with a time-to-live of 300.
\<close>

theorem read_user_miss_ttl:
  assumes "fst (cache_get (read_user_key user_id) s) = None"
    and "find (\<lambda>r. id_field r = Some user_id) (db s) = Some user"
  shows "cache (snd (read_user user_id s)) (read_user_key user_id) = Some (PyUser user, now s + 300)
       \<and> trace (snd (read_user user_id s)) =
           trace s @ [CacheGet (read_user_key user_id), StoreGet user_id,
                      CacheSet (read_user_key user_id) 300]"
  using assms
  by (simp add: read_user_def cached_def cache_get_def read_user_body_def session_get_def
      cache_set_def split: option.splits prod.splits if_splits)


text \<open>A read at time 10 leaves an entry that expires at time 310.\<close>

theorem read_user_miss_ttl_witness:
  "cache (snd (read_user 1 (stored_state\<lparr>now := 10\<rparr>))) ''read_user-1'' = Some (PyUser ann1, 310)
   \<and> trace (snd (read_user 1 (stored_state\<lparr>now := 10\<rparr>))) =
       [CacheGet ''read_user-1'', StoreGet 1, CacheSet ''read_user-1'' 300]"
proof -
  have miss: "fst (cache_get (read_user_key 1) (stored_state\<lparr>now := 10\<rparr>)) = None"
    by (simp add: cache_get_def stored_state_def)
  have row: "find (\<lambda>r. id_field r = Some 1) (db (stored_state\<lparr>now := 10\<rparr>)) = Some ann1"
    by (simp add: stored_state_def ann1_def)
  from read_user_miss_ttl [OF miss row] show ?thesis
    by (simp add: read_user_key_1 stored_state_def)
qed


section \<open>Updating while the lock is held\<close>

text \<open>
  C3. When the lock of an identifier is held, \<open>update_user\<close> returns the
  \<^verbatim>\<open>JSONResponse\<close> with status 226 and content \<^verbatim>\<open>{"status": "Update in progress"}\<close>,
  and the state afterwards is the state before with the refused lock attempt added to
  the call log: the table was neither read nor written and the cache was not touched.
\<close>

theorem update_user_busy:
  assumes "update_user_lock user_id \<in> locks s"
  shows "update_user user_id new_user s =
           (Inr update_in_progress, s\<lparr>trace := trace s @ [LockBusy (update_user_lock user_id)]\<rparr>)
         \<and> http_response (fst (update_user user_id new_user s)) =
           (226, JObj [(''status'', JStr ''Update in progress'')])"
  using assms by (simp add: update_user_def once_held log_event_def update_in_progress_def)


text \<open>An update of entity 1 while another one is in flight.\<close>

theorem update_user_busy_witness:
  "update_user 1 ann2 busy_state =
     (Inr (PyJSONResponse (JObj [(''status'', JStr ''Update in progress'')]) 226),
      \<lparr>db = [ann1], cache = Map.empty, locks = {''update-user-1''}, now = 0,
       trace = [LockBusy ''update-user-1'']\<rparr>)
   \<and> http_response (fst (update_user 1 ann2 busy_state)) =
     (226, JObj [(''status'', JStr ''Update in progress'')])"
proof -
  have held: "update_user_lock 1 \<in> locks busy_state"
    by (simp add: busy_state_def update_user_lock_1)
  from update_user_busy [OF held, of ann2] show ?thesis
    by (simp add: busy_state_def update_user_lock_1 update_in_progress_def)
qed


section \<open>Updating with the lock free\<close>

text \<open>
  C5. When the lock of an identifier is free, \<open>update_user\<close> leaves the set of held locks
  as it found it, whether the entity is found or absent: the last call it makes is the
  release of the lock, and the lock can be acquired again at once.
\<close>

theorem update_user_releases_lock:
  assumes "update_user_lock user_id \<notin> locks s"
  shows "locks (snd (update_user user_id new_user s)) = locks s
       \<and> last (trace (snd (update_user user_id new_user s))) = LockRelease (update_user_lock user_id)
       \<and> fst (try_acquire (update_user_lock user_id) (snd (update_user user_id new_user s)))"
  using assms
  by (simp add: update_user_def once_free release_def update_user_body_locks try_acquire_def)


text \<open>An update of an entity that does not exist: \<^verbatim>\<open>None\<close> comes back and no lock stays held.\<close>

theorem update_user_releases_lock_witness:
  "fst (update_user 1 ann2 fresh_state) = Inr PyNone
   \<and> locks (snd (update_user 1 ann2 fresh_state)) = {}
   \<and> last (trace (snd (update_user 1 ann2 fresh_state))) = LockRelease ''update-user-1''
   \<and> fst (try_acquire ''update-user-1'' (snd (update_user 1 ann2 fresh_state)))"
proof -
  have free: "update_user_lock 1 \<notin> locks fresh_state" by (simp add: fresh_state_def)
  have absent: "find (\<lambda>r. id_field r = Some 1) (db fresh_state) = None"
    by (simp add: fresh_state_def)
  have none: "fst (update_user 1 ann2 fresh_state) = Inr PyNone"
    using free absent by (simp add: update_user_def once_free update_user_body_absent)
  from update_user_releases_lock [OF free, of ann2] none show ?thesis
    by (simp add: update_user_lock_1 fresh_state_def)
qed


text \<open>
  C2. When the lock is free and the entity is present, \<open>update_user\<close> is the composition
  of four steps, in this order: acquire the lock; load the row and write the changed row;
  reload it and delete the cache entry of the identifier; release the lock. After the
  second step the row is written while the cache is still as it was and the lock is
  held; after the third the cache entry is gone and the lock is still held; after the
  fourth the held locks are those from before the call. The call log lists the calls in
  the same order.
\<close>

theorem update_user_effect_order:
  assumes "update_user_lock user_id \<notin> locks s"
    and "find (\<lambda>r. id_field r = Some user_id) (db s) = Some user"
  shows "let user1 = user\<lparr>name := name new_user, email := email new_user\<rparr>;
             rows1 = map (\<lambda>r. if id_field r = Some user_id then user1 else r) (db s);
             s1 = snd (try_acquire (update_user_lock user_id) s);
             s2 = session_commit_update user1 (snd (session_get user_id s1));
             s3 = read_user_reset user_id (snd (session_refresh user1 s2));
             s4 = release (update_user_lock user_id) s3
         in update_user user_id new_user s = (Inr (PyUser user1), s4)
          \<and> (db s1 = db s \<and> cache s1 = cache s
               \<and> locks s1 = insert (update_user_lock user_id) (locks s))
          \<and> (db s2 = rows1 \<and> cache s2 = cache s
               \<and> locks s2 = insert (update_user_lock user_id) (locks s))
          \<and> (db s3 = rows1 \<and> cache s3 = (cache s)(read_user_key user_id := None)
               \<and> locks s3 = insert (update_user_lock user_id) (locks s))
          \<and> (db s4 = rows1 \<and> cache s4 = (cache s)(read_user_key user_id := None)
               \<and> locks s4 = locks s)
          \<and> trace s4 =
               trace s @ [LockAcquire (update_user_lock user_id),
                          StoreGet user_id,
                          StoreUpdate user1,
                          StoreRefresh (Some user_id),
                          CacheDelete (read_user_key user_id),
                          LockRelease (update_user_lock user_id)]"
proof -
  let ?L = "update_user_lock user_id"
  let ?K = "read_user_key user_id"
  let ?u = "user\<lparr>name := name new_user, email := email new_user\<rparr>"
  let ?rows = "map (\<lambda>r. if id_field r = Some user_id then ?u else r) (db s)"
  let ?s1 = "snd (try_acquire ?L s)"
  let ?s2 = "session_commit_update ?u (snd (session_get user_id ?s1))"
  let ?s3 = "read_user_reset user_id (snd (session_refresh ?u ?s2))"
  let ?s4 = "release ?L ?s3"
  have idu: "id_field ?u = Some user_id" using find_id_field [OF assms(2)] by simp
  have s1: "?s1 = log_event (LockAcquire ?L) (s\<lparr>locks := insert ?L (locks s)\<rparr>)"
    using assms(1) by (simp add: try_acquire_def)
  have f1: "db ?s1 = db s" "cache ?s1 = cache s" "locks ?s1 = insert ?L (locks s)"
    "trace ?s1 = trace s @ [LockAcquire ?L]"
    by (simp_all add: s1)
  have row1: "find (\<lambda>r. id_field r = Some user_id) (db ?s1) = Some user"
    using assms(2) f1 by simp
  have f2: "db ?s2 = ?rows" "cache ?s2 = cache s" "locks ?s2 = insert ?L (locks s)"
    "trace ?s2 = trace s @ [LockAcquire ?L, StoreGet user_id, StoreUpdate ?u]"
    using idu f1 by (simp_all add: session_commit_update_def session_get_def)
  have "find (\<lambda>r. id_field r = Some user_id) ?rows = Some ?u"
    using find_replaced [OF assms(2) idu] .
  then have refreshed: "session_refresh ?u ?s2 = (Inr ?u, log_event (StoreRefresh (Some user_id)) ?s2)"
    using idu f2(1) by (simp add: session_refresh_def)
  have f3: "db ?s3 = ?rows" "cache ?s3 = (cache s)(?K := None)" "locks ?s3 = insert ?L (locks s)"
    "trace ?s3 = trace s @ [LockAcquire ?L, StoreGet user_id, StoreUpdate ?u,
        StoreRefresh (Some user_id), CacheDelete ?K]"
    using f2 by (simp_all add: refreshed read_user_reset_def cache_invalidate_def)
  have f4: "db ?s4 = ?rows" "cache ?s4 = (cache s)(?K := None)" "locks ?s4 = locks s"
    "trace ?s4 = trace s @ [LockAcquire ?L, StoreGet user_id, StoreUpdate ?u,
        StoreRefresh (Some user_id), CacheDelete ?K, LockRelease ?L]"
    using f3 assms(1) by (simp_all add: release_def)
  have refreshed1: "session_refresh ?u (session_commit_update ?u (log_event (StoreGet user_id) ?s1))
      = (Inr ?u, log_event (StoreRefresh (Some user_id))
                   (session_commit_update ?u (log_event (StoreGet user_id) ?s1)))"
    using refreshed by (simp only: session_get_def snd_conv)
  have body: "update_user_body user_id new_user ?s1 = (Inr (PyUser ?u), ?s3)"
    using row1 by (simp add: update_user_body_def session_get_def refreshed1 Let_def)
  have whole: "update_user user_id new_user s = (Inr (PyUser ?u), ?s4)"
    using assms(1) body by (simp add: update_user_def once_def try_acquire_def)
  from whole f1(1-3) f2(1-3) f3(1-3) f4 show ?thesis
    unfolding Let_def by (intro conjI)
qed

text \<open>
  An update of entity 1 while its old value is cached: the final state, and the state
  right after the row is written, where the old value is still cached and the lock held.
\<close>

theorem update_user_effect_order_witness:
  "update_user 1 ann2 cached_state =
     (Inr (PyUser \<lparr>id_field = Some 1, name = ''Ann2'', email = ''a@x.com''\<rparr>),
      \<lparr>db = [\<lparr>id_field = Some 1, name = ''Ann2'', email = ''a@x.com''\<rparr>],
       cache = Map.empty, locks = {}, now = 10,
       trace = [LockAcquire ''update-user-1'', StoreGet 1,
                StoreUpdate \<lparr>id_field = Some 1, name = ''Ann2'', email = ''a@x.com''\<rparr>,
                StoreRefresh (Some 1), CacheDelete ''read_user-1'',
                LockRelease ''update-user-1'']\<rparr>)
   \<and> db (session_commit_update \<lparr>id_field = Some 1, name = ''Ann2'', email = ''a@x.com''\<rparr>
          (snd (session_get 1 (snd (try_acquire ''update-user-1'' cached_state))))) =
       [\<lparr>id_field = Some 1, name = ''Ann2'', email = ''a@x.com''\<rparr>]
   \<and> cache (session_commit_update \<lparr>id_field = Some 1, name = ''Ann2'', email = ''a@x.com''\<rparr>
          (snd (session_get 1 (snd (try_acquire ''update-user-1'' cached_state)))))
        ''read_user-1'' = Some (PyUser ann1, 300)
   \<and> locks (session_commit_update \<lparr>id_field = Some 1, name = ''Ann2'', email = ''a@x.com''\<rparr>
          (snd (session_get 1 (snd (try_acquire ''update-user-1'' cached_state))))) =
       {''update-user-1''}"
proof -
  have free: "update_user_lock 1 \<notin> locks cached_state" by (simp add: cached_state_def)
  have row: "find (\<lambda>r. id_field r = Some 1) (db cached_state) = Some ann1"
    by (simp add: cached_state_def ann1_def)
  from update_user_effect_order [OF free row, of ann2] show ?thesis
    by (simp add: Let_def update_user_lock_1 read_user_key_1 cached_state_def ann1_def ann2_def
        release_def read_user_reset_def cache_invalidate_def session_refresh_def
        session_commit_update_def session_get_def try_acquire_def log_event_def)
qed


text \<open>
  C8. When the lock is free and the entity is present, \<open>update_user\<close> returns the loaded
  entity with its own \<open>id\<close> and the \<open>name\<close> and \<open>email\<close> of the request body. In the table,
  the rows of that identifier get the new \<open>name\<close> and \<open>email\<close> and every other row is
  left as it was; the \<open>id\<close> column of the table is unchanged.
\<close>

theorem update_user_keeps_id:
  assumes "update_user_lock user_id \<notin> locks s"
    and "find (\<lambda>r. id_field r = Some user_id) (db s) = Some user"
  shows "fst (update_user user_id new_user s) =
           Inr (PyUser \<lparr>id_field = id_field user, name = name new_user, email = email new_user\<rparr>)
       \<and> db (snd (update_user user_id new_user s)) =
           map (\<lambda>r. if id_field r = Some user_id
                     then r\<lparr>name := name new_user, email := email new_user\<rparr> else r) (db s)
       \<and> map id_field (db (snd (update_user user_id new_user s))) = map id_field (db s)"
proof -
  let ?u = "user\<lparr>name := name new_user, email := email new_user\<rparr>"
  let ?s' = "snd (update_user user_id new_user s)"
  have idu: "id_field user = Some user_id" using find_id_field [OF assms(2)] .
  have u: "?u = \<lparr>id_field = id_field user, name = name new_user, email = email new_user\<rparr>"
    by simp
  have same: "r\<lparr>name := name new_user, email := email new_user\<rparr> = ?u"
    if "id_field r = Some user_id" for r :: User
    using that idu by simp
  have res: "fst (update_user user_id new_user s) = Inr (PyUser ?u)"
    using assms by (simp add: update_user_def once_free update_user_body_found)
  have "db ?s' = map (\<lambda>r. if id_field r = id_field ?u then ?u else r) (db s)"
    using assms
    by (simp add: update_user_def once_free release_def update_user_body_found
        read_user_reset_def cache_invalidate_def session_commit_update_def)
  also have "\<dots> = map (\<lambda>r. if id_field r = Some user_id
                     then r\<lparr>name := name new_user, email := email new_user\<rparr> else r) (db s)"
    using idu same by (intro map_cong) auto
  finally have rows: "db ?s' = map (\<lambda>r. if id_field r = Some user_id
                     then r\<lparr>name := name new_user, email := email new_user\<rparr> else r) (db s)" .
  have ids: "map id_field (db ?s') = map id_field (db s)"
    by (rule update_user_ids)
  from res u rows ids show ?thesis by simp
qed


text \<open>An update of entity 1 in a table of two rows; the body's \<open>id\<close> 7 appears nowhere.\<close>

theorem update_user_keeps_id_witness:
  "fst (update_user 1 ann2 (stored_state\<lparr>db := [ann1, bob]\<rparr>)) =
     Inr (PyUser \<lparr>id_field = Some 1, name = ''Ann2'', email = ''a@x.com''\<rparr>)
   \<and> db (snd (update_user 1 ann2 (stored_state\<lparr>db := [ann1, bob]\<rparr>))) =
     [\<lparr>id_field = Some 1, name = ''Ann2'', email = ''a@x.com''\<rparr>, bob]"
proof -
  have free: "update_user_lock 1 \<notin> locks (stored_state\<lparr>db := [ann1, bob]\<rparr>)"
    by (simp add: stored_state_def)
  have row: "find (\<lambda>r. id_field r = Some 1) (db (stored_state\<lparr>db := [ann1, bob]\<rparr>)) = Some ann1"
    by (simp add: ann1_def)
  from update_user_keeps_id [OF free row, of ann2] show ?thesis
    by (simp add: ann1_def ann2_def bob_def)
qed


text \<open>
  C9. \<open>update_user\<close> does the same for a request body and for the body with any other
  \<open>id\<close>: only the body's \<open>name\<close> and \<open>email\<close> are used. What it returns is the busy
  response, \<^verbatim>\<open>None\<close>, or an entity whose \<open>id\<close> is the path parameter.
\<close>

theorem update_user_ignores_body_id:
  "update_user user_id new_user s =
     update_user user_id \<lparr>id_field = k, name = name new_user, email = email new_user\<rparr> s
   \<and> fst (update_user user_id new_user s) \<in>
       {Inr update_in_progress, Inr PyNone,
        Inr (PyUser \<lparr>id_field = Some user_id, name = name new_user, email = email new_user\<rparr>)}"
proof -
  have "update_user_body user_id new_user =
        update_user_body user_id \<lparr>id_field = k, name = name new_user, email = email new_user\<rparr>"
    by (rule ext) (simp add: update_user_body_def cong: option.case_cong prod.case_cong)
  then have same: "update_user user_id new_user s =
     update_user user_id \<lparr>id_field = k, name = name new_user, email = email new_user\<rparr> s"
    by (simp add: update_user_def)
  have res: "fst (update_user user_id new_user s) \<in>
       {Inr update_in_progress, Inr PyNone,
        Inr (PyUser \<lparr>id_field = Some user_id, name = name new_user, email = email new_user\<rparr>)}"
  proof (cases "update_user_lock user_id \<in> locks s")
    case True
    then show ?thesis by (simp add: update_user_def once_held)
  next
    case False
    show ?thesis
    proof (cases "find (\<lambda>r. id_field r = Some user_id) (db s)")
      case None
      with False show ?thesis by (simp add: update_user_def once_free update_user_body_absent)
    next
      case (Some user)
      then have "id_field user = Some user_id" by (rule find_id_field)
      with False Some show ?thesis
        by (simp add: update_user_def once_free update_user_body_found)
    qed
  qed
  from same res show ?thesis by (rule conjI)
qed


section \<open>Updating an entity that is not there\<close>

text \<open>
  C6 as stated asks for a 404-equivalent response instead of a 200 when the lock is
  acquired and the entity is absent. In the empty service, the update of entity 1 is
  answered with status 200 and the body \<^verbatim>\<open>null\<close>.
\<close>

theorem update_user_absent_status_200:
  "locks fresh_state = {} \<and> db fresh_state = []
   \<and> http_response (fst (update_user 1 ann2 fresh_state)) = (200, JNull)
   \<and> fst (http_response (fst (update_user 1 ann2 fresh_state))) \<noteq> 404"
  by (simp add: fresh_state_def update_user_def once_free update_user_body_absent)


text \<open>
  C6, amended. When the lock is free and the entity is absent, \<open>update_user\<close> returns
  \<^verbatim>\<open>None\<close>, which goes out as the body \<^verbatim>\<open>null\<close> under the route's status 200. The
  absence shows in the body, not in the status.
\<close>

theorem update_user_absent_response:
  assumes "update_user_lock user_id \<notin> locks s"
    and "find (\<lambda>r. id_field r = Some user_id) (db s) = None"
  shows "fst (update_user user_id new_user s) = Inr PyNone
       \<and> http_response (fst (update_user user_id new_user s)) = (200, JNull)"
  using assms by (simp add: update_user_def once_free update_user_body_absent)


text \<open>An update of entity 2 in a table that holds entity 1 only.\<close>

theorem update_user_absent_response_witness:
  "fst (update_user 2 ann2 stored_state) = Inr PyNone
   \<and> http_response (fst (update_user 2 ann2 stored_state)) = (200, JNull)"
proof -
  have free: "update_user_lock 2 \<notin> locks stored_state" by (simp add: stored_state_def)
  have absent: "find (\<lambda>r. id_field r = Some 2) (db stored_state) = None"
    by (simp add: stored_state_def ann1_def)
  from update_user_absent_response [OF free absent, of ann2] show ?thesis .
qed

section \<open>Updates of different entities\<close>

text \<open>
  The locks of two different entities have different names, so an update of one entity
  is not refused because the lock of another one is held.
\<close>

lemma update_user_other_entity:
  assumes "locks s = {update_user_lock i}" and "i \<noteq> j"
  shows "fst (update_user j new_user s) \<noteq> Inr update_in_progress"
proof -
  have free: "update_user_lock j \<notin> locks s"
    using assms update_user_lock_inj by auto
  show ?thesis
  proof (cases "find (\<lambda>r. id_field r = Some j) (db s)")
    case None
    with free show ?thesis
      by (simp add: update_user_def once_free update_user_body_absent update_in_progress_def)
  next
    case (Some user)
    with free show ?thesis
      by (simp add: update_user_def once_free update_user_body_found update_in_progress_def)
  qed
qed

end
